theory Spec2Isabelle
  imports Main
begin

section \<open>C integers and memory\<close>

text \<open>
  The program works on C \<open>int\<close> values (32 bits on the targets gcc builds it for).
  They are modelled as mathematical integers in the range \<open>INT_MIN .. INT_MAX\<close>; an
  arithmetic result outside that range is undefined behaviour in C and is the error
  \<open>SignedOverflow\<close> here.  An array access outside the array is the error
  \<open>OutOfBounds\<close>.
\<close>

definition INT_MAX :: int where
  "INT_MAX = 2147483647"

definition INT_MIN :: int where
  "INT_MIN = - 2147483648"

datatype error = SignedOverflow | OutOfBounds

type_synonym 'a result = "error + 'a"

definition rbind :: "'a result \<Rightarrow> ('a \<Rightarrow> 'b result) \<Rightarrow> 'b result" where
  "rbind m f = (case m of Inl e \<Rightarrow> Inl e | Inr v \<Rightarrow> f v)"

text \<open>The value of an \<open>int\<close> expression whose mathematical result is \<open>v\<close>.\<close>

definition c_int :: "int \<Rightarrow> int result" where
  "c_int v = (if INT_MIN \<le> v \<and> v \<le> INT_MAX then Inr v else Inl SignedOverflow)"

text \<open>
  The \<open>%\<close> operator of C truncates towards zero: the remainder has the sign of the
  dividend.  (The divisors of the program are the positive constants \<open>COLS\<close> and
  \<open>ROWS\<close>.)
\<close>

definition c_rem :: "int \<Rightarrow> int \<Rightarrow> int" where
  "c_rem a b = sgn a * (\<bar>a\<bar> mod \<bar>b\<bar>)"

text \<open>An \<open>int *\<close> argument points to an array, modelled as the list of its elements.\<close>

type_synonym grid = "int list"

definition load :: "grid \<Rightarrow> int \<Rightarrow> int result" where
  "load g i = (if 0 \<le> i \<and> i < int (length g) then Inr (g ! nat i) else Inl OutOfBounds)"

definition store :: "grid \<Rightarrow> int \<Rightarrow> int \<Rightarrow> grid result" where
  "store g i v =
     (if 0 \<le> i \<and> i < int (length g) then Inr (g[nat i := v]) else Inl OutOfBounds)"

section \<open>The grid store\<close>

definition COLS :: int where
  "COLS = 70"

definition ROWS :: int where
  "ROWS = 30"

text \<open>
  \<^verbatim>\<open>
  int cellindex(int x, int y){
    x = (x+COLS)%COLS;
    y = (y+ROWS)%ROWS;
    return y * COLS + x;
  }
  \<close>
\<close>

definition cellindex :: "int \<Rightarrow> int \<Rightarrow> int result" where
  "cellindex x y =
     rbind (c_int (x + COLS)) (\<lambda>xs.
     rbind (c_int (y + ROWS)) (\<lambda>ys.
     rbind (c_int (c_rem ys ROWS * COLS)) (\<lambda>p.
       c_int (p + c_rem xs COLS))))"

text \<open>\<^verbatim>\<open>void setcell(int *grid, int x, int y, int state) { grid[cellindex(x,y)] = state; }\<close>\<close>

definition setcell :: "grid \<Rightarrow> int \<Rightarrow> int \<Rightarrow> int \<Rightarrow> grid result" where
  "setcell g x y state = rbind (cellindex x y) (\<lambda>i. store g i state)"

text \<open>\<^verbatim>\<open>int getcell(int *grid, int x, int y) { return grid[cellindex(x,y)]; }\<close>\<close>

definition getcell :: "grid \<Rightarrow> int \<Rightarrow> int \<Rightarrow> int result" where
  "getcell g x y = rbind (cellindex x y) (\<lambda>i. load g i)"

text \<open>
  \<^verbatim>\<open>for (size_t i = 0; i < COLS * ROWS; i++) grid[i] = 0;\<close>
  The loop, started at \<open>i\<close>.
\<close>

function init_from :: "nat \<Rightarrow> grid \<Rightarrow> grid result" where
  "init_from i g =
     (if int i < COLS * ROWS then rbind (store g (int i) 0) (init_from (Suc i)) else Inr g)"
  by pat_completeness auto
termination
  by (relation "measure (\<lambda>(i, g). nat (COLS * ROWS) - i)") (auto simp: COLS_def ROWS_def)

declare init_from.simps [simp del]

definition init :: "grid \<Rightarrow> grid result" where
  "init g = init_from 0 g"

text \<open>
  \<^verbatim>\<open>for (size_t i = 0; i < ROWS*COLS; i++) dest[i] = source[i];\<close>
  The loop, started at \<open>i\<close>; the result is the destination array.
\<close>

function copy_from :: "nat \<Rightarrow> grid \<Rightarrow> grid \<Rightarrow> grid result" where
  "copy_from i source dest =
     (if int i < ROWS * COLS
      then rbind (load source (int i)) (\<lambda>v.
           rbind (store dest (int i) v) (copy_from (Suc i) source))
      else Inr dest)"
  by pat_completeness auto
termination
  by (relation "measure (\<lambda>(i, s, d). nat (ROWS * COLS) - i)") (auto simp: COLS_def ROWS_def)

declare copy_from.simps [simp del]

definition copygrid :: "grid \<Rightarrow> grid \<Rightarrow> grid result" where
  "copygrid source dest = copy_from 0 source dest"

section \<open>The generation engine\<close>

text \<open>
  The eight reads of \<open>count_alive_neighbors\<close> in the order of the source
  (\<open>nw, n, ne, w, e, sw, s, se\<close>); \<open>x-1\<close>, \<open>x+1\<close>, \<open>y-1\<close> and \<open>y+1\<close> are \<open>int\<close>
  expressions, and so is every partial sum of \<open>nw + n + ne + w + e + sw + s + se\<close>.
\<close>

definition getcell_at :: "grid \<Rightarrow> int \<Rightarrow> int \<Rightarrow> int \<Rightarrow> int \<Rightarrow> int result" where
  "getcell_at g x dx y dy =
     rbind (c_int (x + dx)) (\<lambda>a. rbind (c_int (y + dy)) (\<lambda>b. getcell g a b))"

definition count_alive_neighbors :: "grid \<Rightarrow> int \<Rightarrow> int \<Rightarrow> int result" where
  "count_alive_neighbors g x y =
     rbind (getcell_at g x (- 1) y (- 1)) (\<lambda>nw.
     rbind (getcell_at g x 0 y (- 1)) (\<lambda>n.
     rbind (getcell_at g x 1 y (- 1)) (\<lambda>ne.
     rbind (getcell_at g x (- 1) y 0) (\<lambda>w.
     rbind (getcell_at g x 1 y 0) (\<lambda>e.
     rbind (getcell_at g x (- 1) y 1) (\<lambda>sw.
     rbind (getcell_at g x 0 y 1) (\<lambda>s.
     rbind (getcell_at g x 1 y 1) (\<lambda>se.
     rbind (c_int (nw + n)) (\<lambda>s1.
     rbind (c_int (s1 + ne)) (\<lambda>s2.
     rbind (c_int (s2 + w)) (\<lambda>s3.
     rbind (c_int (s3 + e)) (\<lambda>s4.
     rbind (c_int (s4 + sw)) (\<lambda>s5.
     rbind (c_int (s5 + s)) (\<lambda>s6.
       c_int (s6 + se)))))))))))))))"

text \<open>
  The body of the two loops of \<open>update\<close>: it reads \<open>grid\<close> and writes \<open>gridcpy\<close>.
  \<^verbatim>\<open>
  int alive_neighbors = count_alive_neighbors(grid, x, y);
  if (getcell(grid, x, y)) {
    if (alive_neighbors < 2 || alive_neighbors > 3) { setcell(gridcpy, x, y, 0); }
  } else {
    if (alive_neighbors == 3) { setcell(gridcpy, x, y, 1); }
  }
  \<close>
\<close>

definition update_cell :: "grid \<Rightarrow> int \<Rightarrow> int \<Rightarrow> grid \<Rightarrow> grid result" where
  "update_cell g x y gridcpy =
     rbind (count_alive_neighbors g x y) (\<lambda>alive_neighbors.
     rbind (getcell g x y) (\<lambda>c.
       if c \<noteq> 0 then
         (if alive_neighbors < 2 \<or> alive_neighbors > 3 then setcell gridcpy x y 0
          else Inr gridcpy)
       else
         (if alive_neighbors = 3 then setcell gridcpy x y 1
          else Inr gridcpy)))"

text \<open>\<^verbatim>\<open>for (int x = 0; x < COLS; x++)\<close>, started at \<open>x\<close>, in row \<open>y\<close>.\<close>

function update_row :: "grid \<Rightarrow> int \<Rightarrow> int \<Rightarrow> grid \<Rightarrow> grid result" where
  "update_row g y x gridcpy =
     (if x < COLS then rbind (update_cell g x y gridcpy) (update_row g y (x + 1))
      else Inr gridcpy)"
  by pat_completeness auto
termination
  by (relation "measure (\<lambda>(g, y, x, c). nat (COLS - x))") auto

declare update_row.simps [simp del]

text \<open>\<^verbatim>\<open>for (int y = 0; y < ROWS; y++)\<close>, started at \<open>y\<close>.\<close>

function update_rows :: "grid \<Rightarrow> int \<Rightarrow> grid \<Rightarrow> grid result" where
  "update_rows g y gridcpy =
     (if y < ROWS then rbind (update_row g y 0 gridcpy) (update_rows g (y + 1))
      else Inr gridcpy)"
  by pat_completeness auto
termination
  by (relation "measure (\<lambda>(g, y, c). nat (ROWS - y))") auto

declare update_rows.simps [simp del]

text \<open>
  \<open>update\<close> copies the grid into the local array \<open>gridcpy\<close>, runs the loops and copies
  \<open>gridcpy\<close> back.  The local array is not initialised by the source; \<open>update_in\<close>
  takes its initial contents as the argument \<open>scratch\<close>, and \<open>update\<close> starts from
  zeros (\<open>update_in_scratch\<close> below shows that the contents do not matter).
\<close>

definition update_in :: "grid \<Rightarrow> grid \<Rightarrow> grid result" where
  "update_in scratch g =
     rbind (copygrid g scratch) (\<lambda>gridcpy.
     rbind (update_rows g 0 gridcpy) (\<lambda>gridcpy'.
       copygrid gridcpy' g))"

definition update :: "grid \<Rightarrow> grid result" where
  "update g = update_in (replicate (nat (COLS * ROWS)) 0) g"

text \<open>The cells that \<open>setup\<close> sets to 1, in the order of the source.\<close>

definition setup_cells :: "(int \<times> int) list" where
  "setup_cells = [
    (20, 15), (21, 13), (21, 14), (21, 16), (21, 17), (24, 12), (24, 13),
    (24, 14), (24, 16), (24, 17), (24, 18), (25, 12), (25, 13), (25, 17),
    (25, 18), (26, 8), (26, 9), (26, 10), (26, 20), (26, 21), (26, 22),
    (28, 8), (28, 10), (28, 20), (28, 22), (29, 10), (29, 11), (29, 19),
    (29, 20), (30, 10), (30, 20), (31, 9), (31, 10), (31, 20), (31, 21),
    (32, 10), (32, 20), (33, 10), (33, 13), (33, 17), (33, 20), (34, 10),
    (34, 13), (34, 17), (34, 20), (35, 8), (35, 10), (35, 11), (35, 19),
    (35, 20), (35, 22), (36, 7), (36, 9), (36, 21), (36, 23), (38, 9),
    (38, 21), (39, 9), (39, 21), (40, 9), (40, 21), (41, 8), (41, 9),
    (41, 21), (41, 22), (42, 8), (42, 9), (42, 21), (42, 22), (43, 9),
    (43, 11), (43, 12), (43, 13), (43, 17), (43, 18), (43, 19), (43, 21),
    (44, 11), (44, 12), (44, 13), (44, 17), (44, 18), (44, 19), (45, 11),
    (45, 12), (45, 18), (45, 19), (46, 10), (46, 11), (46, 19), (46, 20),
    (47, 12), (47, 18), (48, 9), (48, 21), (49, 9), (49, 10), (49, 20),
    (49, 21), (51, 8), (51, 10), (51, 11), (51, 19), (51, 20), (51, 22),
    (52, 7), (52, 10), (52, 11), (52, 19), (52, 20), (52, 23), (53, 6),
    (53, 10), (53, 11), (53, 19), (53, 20), (53, 24), (54, 7), (54, 23)]"

text \<open>
  \<^verbatim>\<open>grid[cellindex(x, y)] = 1;\<close> for each of the cells in turn.  The source's
  function \<open>setup\<close> is \<open>setup_grid\<close> here (\<open>setup\<close> is a keyword of Isabelle).
\<close>

fun setup_from :: "(int \<times> int) list \<Rightarrow> grid \<Rightarrow> grid result" where
  "setup_from [] g = Inr g"
| "setup_from ((x, y) # cs) g =
     rbind (cellindex x y) (\<lambda>i. rbind (store g i 1) (setup_from cs))"

definition setup_grid :: "grid \<Rightarrow> grid result" where
  "setup_grid g = setup_from setup_cells g"

text \<open>
  The grid of \<open>main\<close> after \<open>init\<close>, \<open>setup\<close> and the first \<open>n\<close> rounds of its
  loop \<^verbatim>\<open>while(1){ usleep(30000); update(grid); draw(grid); }\<close>.
\<close>

fun generations :: "nat \<Rightarrow> grid \<Rightarrow> grid result" where
  "generations 0 g = Inr g"
| "generations (Suc n) g = rbind (update g) (generations n)"

definition main_grid :: "grid \<Rightarrow> nat \<Rightarrow> grid result" where
  "main_grid g0 n = rbind (init g0) (\<lambda>g. rbind (setup_grid g) (generations n))"

section \<open>The specification's operations\<close>

text \<open>
  The operations as the specification words them, on the mathematical integers, for
  comparison with the functions above.  \<open>wrap v n\<close> is the specification's
  \<open>((v mod n) + n) mod n\<close> and \<open>index\<close> its linearisation \<open>y' * W + x'\<close>, with
  \<open>W = COLS\<close> and \<open>H = ROWS\<close>.
\<close>

definition wrap :: "int \<Rightarrow> int \<Rightarrow> int" where
  "wrap v n = ((v mod n) + n) mod n"

definition index :: "int \<Rightarrow> int \<Rightarrow> int" where
  "index x y = wrap y ROWS * COLS + wrap x COLS"

definition cell :: "grid \<Rightarrow> int \<Rightarrow> int \<Rightarrow> int" where
  "cell g x y = g ! nat (index x y)"

text \<open>The eight neighbours of a cell: N, S, E, W, NE, NW, SE, SW.\<close>

definition neighbours :: "int \<Rightarrow> int \<Rightarrow> (int \<times> int) list" where
  "neighbours x y =
     [(x, y - 1), (x, y + 1), (x + 1, y), (x - 1, y),
      (x + 1, y - 1), (x - 1, y - 1), (x + 1, y + 1), (x - 1, y + 1)]"

definition live_neighbours :: "grid \<Rightarrow> int \<Rightarrow> int \<Rightarrow> int" where
  "live_neighbours g x y = (\<Sum>(a, b) \<leftarrow> neighbours x y. cell g a b)"

text \<open>The rule table of the specification: next state from current state and count.\<close>

definition rule :: "int \<Rightarrow> int \<Rightarrow> int" where
  "rule s n =
     (if s = 1 then (if n < 2 then 0 else if n = 2 \<or> n = 3 then 1 else 0)
      else (if n = 3 then 1 else 0))"

text \<open>
  The next generation: the rule mapped over every cell, each decided from the state
  and the neighbours it has in the argument grid.  Cell \<open>i\<close> of the array is the
  cell \<open>(i mod COLS, i div COLS)\<close>.
\<close>

definition advance :: "grid \<Rightarrow> grid" where
  "advance g =
     map (\<lambda>i. rule (g ! i) (live_neighbours g (int i mod COLS) (int i div COLS)))
       [0 ..< nat (COLS * ROWS)]"

text \<open>
  The array while the loops of \<open>update\<close> run: the first \<open>k\<close> cells decided by the
  rule, the others as they are in \<open>g\<close>.
\<close>

definition decided :: "nat \<Rightarrow> grid \<Rightarrow> grid" where
  "decided k g =
     map (\<lambda>i. if i < k then rule (g ! i) (live_neighbours g (int i mod COLS) (int i div COLS))
               else g ! i)
       [0 ..< nat (COLS * ROWS)]"

text \<open>A grid of the program: \<open>COLS * ROWS\<close> cells, each 0 (dead) or 1 (alive).\<close>

definition binary :: "grid \<Rightarrow> bool" where
  "binary g = (\<forall>c \<in> set g. c = 0 \<or> c = 1)"

definition is_grid :: "grid \<Rightarrow> bool" where
  "is_grid g = (length g = nat (COLS * ROWS) \<and> binary g)"

definition all_dead :: grid where
  "all_dead = replicate (nat (COLS * ROWS)) 0"

text \<open>The grid whose live cells are those \<open>(x, y)\<close> with \<open>P x y\<close>.\<close>

definition grid_of :: "(int \<Rightarrow> int \<Rightarrow> bool) \<Rightarrow> grid" where
  "grid_of P =
     map (\<lambda>i. if P (int i mod COLS) (int i div COLS) then 1 else 0) [0 ..< nat (COLS * ROWS)]"

text \<open>
  The block with its upper left cell at \<open>(bx, by)\<close>: the cells \<open>(bx, by)\<close>,
  \<open>(bx + 1, by)\<close>, \<open>(bx, by + 1)\<close> and \<open>(bx + 1, by + 1)\<close>, wrapped.
\<close>

definition block :: "int \<Rightarrow> int \<Rightarrow> grid" where
  "block bx by =
     grid_of (\<lambda>x y. (x = bx \<or> x = wrap (bx + 1) COLS) \<and> (y = by \<or> y = wrap (by + 1) ROWS))"

text \<open>
  The blinkers with centre \<open>(cx, cy)\<close>: three cells in a horizontal row, and three
  cells in a vertical row, wrapped.
\<close>

definition blinker_h :: "int \<Rightarrow> int \<Rightarrow> grid" where
  "blinker_h cx cy =
     grid_of (\<lambda>x y. (x = wrap (cx - 1) COLS \<or> x = cx \<or> x = wrap (cx + 1) COLS) \<and> y = cy)"

definition blinker_v :: "int \<Rightarrow> int \<Rightarrow> grid" where
  "blinker_v cx cy =
     grid_of (\<lambda>x y. x = cx \<and> (y = wrap (cy - 1) ROWS \<or> y = cy \<or> y = wrap (cy + 1) ROWS))"

section \<open>The grid store: wrapping\<close>

lemma c_rem_nonneg: "0 \<le> a \<Longrightarrow> 0 < b \<Longrightarrow> c_rem a b = a mod b"
  by (cases "a = 0") (simp_all add: c_rem_def)

lemma wrap_mod: "0 < n \<Longrightarrow> wrap v n = v mod n"
  by (simp add: wrap_def)

lemma wrap_range: "0 < n \<Longrightarrow> 0 \<le> wrap v n \<and> wrap v n < n"
  by (simp add: wrap_mod)

lemma index_bounds: "0 \<le> index x y \<and> index x y < COLS * ROWS"
proof -
  have x: "0 \<le> wrap x COLS \<and> wrap x COLS \<le> 69"
    using wrap_range [of COLS x] by (simp add: COLS_def)
  have y: "0 \<le> wrap y ROWS \<and> wrap y ROWS \<le> 29"
    using wrap_range [of ROWS y] by (simp add: ROWS_def)
  show ?thesis
    using x y by (simp add: index_def COLS_def ROWS_def)
qed

lemma cellindex_wraps:
  assumes "- COLS \<le> x" "x \<le> INT_MAX - COLS" "- ROWS \<le> y" "y \<le> INT_MAX - ROWS"
  shows "cellindex x y = Inr (index x y)"
proof -
  have cx: "c_int (x + COLS) = Inr (x + COLS)"
    using assms by (simp add: c_int_def COLS_def INT_MIN_def INT_MAX_def)
  have cy: "c_int (y + ROWS) = Inr (y + ROWS)"
    using assms by (simp add: c_int_def ROWS_def INT_MIN_def INT_MAX_def)
  have rx: "c_rem (x + COLS) COLS = wrap x COLS"
    using assms by (simp add: c_rem_nonneg wrap_mod COLS_def)
  have ry: "c_rem (y + ROWS) ROWS = wrap y ROWS"
    using assms by (simp add: c_rem_nonneg wrap_mod ROWS_def)
  have x: "0 \<le> wrap x COLS \<and> wrap x COLS \<le> 69"
    using wrap_range [of COLS x] by (simp add: COLS_def)
  have y: "0 \<le> wrap y ROWS \<and> wrap y ROWS \<le> 29"
    using wrap_range [of ROWS y] by (simp add: ROWS_def)
  have p: "c_int (wrap y ROWS * COLS) = Inr (wrap y ROWS * COLS)"
    using y by (simp add: c_int_def COLS_def INT_MIN_def INT_MAX_def)
  have q: "c_int (wrap y ROWS * COLS + wrap x COLS) = Inr (index x y)"
    using x y by (simp add: c_int_def index_def COLS_def INT_MIN_def INT_MAX_def)
  show ?thesis
    by (simp add: cellindex_def rbind_def cx cy rx ry p q)
qed

lemma cellindex_periodic:
  assumes "- COLS \<le> x" "x \<le> INT_MAX - COLS" "- ROWS \<le> y" "y \<le> INT_MAX - ROWS"
  shows "- COLS \<le> x + k * COLS \<Longrightarrow> x + k * COLS \<le> INT_MAX - COLS \<Longrightarrow>
      cellindex (x + k * COLS) y = cellindex x y"
    and "- ROWS \<le> y + k * ROWS \<Longrightarrow> y + k * ROWS \<le> INT_MAX - ROWS \<Longrightarrow>
      cellindex x (y + k * ROWS) = cellindex x y"
  using assms by (simp_all add: cellindex_wraps index_def wrap_mod COLS_def ROWS_def)

lemma getcell_wraps:
  assumes "length g = nat (COLS * ROWS)"
    and "- COLS \<le> x" "x \<le> INT_MAX - COLS" "- ROWS \<le> y" "y \<le> INT_MAX - ROWS"
  shows "getcell g x y = Inr (cell g x y)"
  using assms index_bounds [of x y]
  by (simp add: getcell_def cellindex_wraps rbind_def load_def cell_def)

lemma setcell_wraps:
  assumes "length g = nat (COLS * ROWS)"
    and "- COLS \<le> x" "x \<le> INT_MAX - COLS" "- ROWS \<le> y" "y \<le> INT_MAX - ROWS"
  shows "setcell g x y v = Inr (g[nat (index x y) := v])"
  using assms index_bounds [of x y]
  by (simp add: setcell_def cellindex_wraps rbind_def store_def)

lemma cell_binary:
  assumes "is_grid g"
  shows "cell g x y = 0 \<or> cell g x y = 1"
proof -
  have "nat (index x y) < length g"
    using assms index_bounds [of x y] by (simp add: is_grid_def)
  then have "g ! nat (index x y) \<in> set g" by simp
  then show ?thesis using assms by (auto simp: is_grid_def binary_def cell_def)
qed

lemma getcell_at_wraps:
  assumes "length g = nat (COLS * ROWS)"
    and "- COLS < x" "x < INT_MAX - COLS" "- ROWS < y" "y < INT_MAX - ROWS"
    and "dx = - 1 \<or> dx = 0 \<or> dx = 1" "dy = - 1 \<or> dy = 0 \<or> dy = 1"
  shows "getcell_at g x dx y dy = Inr (cell g (x + dx) (y + dy))"
proof -
  have a: "c_int (x + dx) = Inr (x + dx)"
    using assms by (auto simp: c_int_def COLS_def INT_MIN_def INT_MAX_def)
  have b: "c_int (y + dy) = Inr (y + dy)"
    using assms by (auto simp: c_int_def ROWS_def INT_MIN_def INT_MAX_def)
  have "getcell g (x + dx) (y + dy) = Inr (cell g (x + dx) (y + dy))"
    using assms by (intro getcell_wraps) auto
  then show ?thesis
    by (simp add: getcell_at_def rbind_def a b)
qed

lemma c_int_small: "0 \<le> v \<Longrightarrow> v \<le> 8 \<Longrightarrow> c_int v = Inr v"
  by (simp add: c_int_def INT_MIN_def INT_MAX_def)

lemma sum_chain:
  assumes "0 \<le> a \<and> a \<le> 1" "0 \<le> b \<and> b \<le> 1" "0 \<le> c \<and> c \<le> 1" "0 \<le> d \<and> d \<le> 1"
    "0 \<le> e \<and> e \<le> 1" "0 \<le> f \<and> f \<le> 1" "0 \<le> h \<and> h \<le> 1" "0 \<le> k \<and> k \<le> 1"
  shows "rbind (c_int (a + b)) (\<lambda>s1.
     rbind (c_int (s1 + c)) (\<lambda>s2.
     rbind (c_int (s2 + d)) (\<lambda>s3.
     rbind (c_int (s3 + e)) (\<lambda>s4.
     rbind (c_int (s4 + f)) (\<lambda>s5.
     rbind (c_int (s5 + h)) (\<lambda>s6.
       c_int (s6 + k))))))) = Inr (a + b + c + d + e + f + h + k)"
proof -
  have 1: "c_int (a + b) = Inr (a + b)" using assms by (intro c_int_small) linarith+
  have 2: "c_int (a + b + c) = Inr (a + b + c)" using assms by (intro c_int_small) linarith+
  have 3: "c_int (a + b + c + d) = Inr (a + b + c + d)" using assms by (intro c_int_small) linarith+
  have 4: "c_int (a + b + c + d + e) = Inr (a + b + c + d + e)" using assms by (intro c_int_small) linarith+
  have 5: "c_int (a + b + c + d + e + f) = Inr (a + b + c + d + e + f)" using assms by (intro c_int_small) linarith+
  have 6: "c_int (a + b + c + d + e + f + h) = Inr (a + b + c + d + e + f + h)" using assms by (intro c_int_small) linarith+
  have 7: "c_int (a + b + c + d + e + f + h + k) = Inr (a + b + c + d + e + f + h + k)" using assms by (intro c_int_small) linarith+
  show ?thesis by (simp add: rbind_def 1 2 3 4 5 6 7)
qed

lemma cell_range:
  assumes "is_grid g"
  shows "0 \<le> cell g x y \<and> cell g x y \<le> 1"
  using cell_binary [OF assms, of x y] by auto

lemma live_neighbours_eq:
  "live_neighbours g x y =
     cell g (x - 1) (y - 1) + cell g x (y - 1) + cell g (x + 1) (y - 1) +
     cell g (x - 1) y + cell g (x + 1) y +
     cell g (x - 1) (y + 1) + cell g x (y + 1) + cell g (x + 1) (y + 1)"
  by (simp add: live_neighbours_def neighbours_def)

lemma live_neighbours_range:
  assumes "is_grid g"
  shows "0 \<le> live_neighbours g x y \<and> live_neighbours g x y \<le> 8"
  using cell_range [OF assms, of "x - 1" "y - 1"] cell_range [OF assms, of x "y - 1"]
    cell_range [OF assms, of "x + 1" "y - 1"] cell_range [OF assms, of "x - 1" y]
    cell_range [OF assms, of "x + 1" y] cell_range [OF assms, of "x - 1" "y + 1"]
    cell_range [OF assms, of x "y + 1"] cell_range [OF assms, of "x + 1" "y + 1"]
  unfolding live_neighbours_eq by linarith

lemma count_alive_neighbors_sum:
  assumes g: "is_grid g"
    and r: "- COLS < x" "x < INT_MAX - COLS" "- ROWS < y" "y < INT_MAX - ROWS"
  shows "count_alive_neighbors g x y = Inr (live_neighbours g x y)"
proof -
  have len: "length g = nat (COLS * ROWS)" using g by (simp add: is_grid_def)
  note gc = getcell_at_wraps [OF len r]
  have nw: "getcell_at g x (- 1) y (- 1) = Inr (cell g (x - 1) (y - 1))" using gc [of "- 1" "- 1"] by simp
  have n: "getcell_at g x 0 y (- 1) = Inr (cell g x (y - 1))" using gc [of 0 "- 1"] by simp
  have ne: "getcell_at g x 1 y (- 1) = Inr (cell g (x + 1) (y - 1))" using gc [of 1 "- 1"] by simp
  have w: "getcell_at g x (- 1) y 0 = Inr (cell g (x - 1) y)" using gc [of "- 1" 0] by simp
  have e: "getcell_at g x 1 y 0 = Inr (cell g (x + 1) y)" using gc [of 1 0] by simp
  have sw: "getcell_at g x (- 1) y 1 = Inr (cell g (x - 1) (y + 1))" using gc [of "- 1" 1] by simp
  have s: "getcell_at g x 0 y 1 = Inr (cell g x (y + 1))" using gc [of 0 1] by simp
  have se: "getcell_at g x 1 y 1 = Inr (cell g (x + 1) (y + 1))" using gc [of 1 1] by simp
  note b = cell_range [OF g]
  have "count_alive_neighbors g x y =
     Inr (cell g (x - 1) (y - 1) + cell g x (y - 1) + cell g (x + 1) (y - 1) +
     cell g (x - 1) y + cell g (x + 1) y +
     cell g (x - 1) (y + 1) + cell g x (y + 1) + cell g (x + 1) (y + 1))"
    unfolding count_alive_neighbors_def nw n ne w e sw s se
    by (simp add: rbind_def [of "Inr v" for v] sum_chain [OF b b b b b b b b])
  then show ?thesis by (simp add: live_neighbours_eq)
qed

lemma binary_update: "binary g \<Longrightarrow> v = 0 \<or> v = 1 \<Longrightarrow> binary (g[i := v])"
  using set_update_subset_insert [of g i v] by (auto simp: binary_def)

lemma is_grid_update: "is_grid g \<Longrightarrow> v = 0 \<or> v = 1 \<Longrightarrow> is_grid (g[i := v])"
  by (simp add: is_grid_def binary_update)

lemma is_grid_all_dead: "is_grid all_dead"
  by (simp add: is_grid_def binary_def all_dead_def)

text \<open>
  C1.  The claim: for all integers \<open>x\<close>, \<open>y\<close> and \<open>k\<close>, \<open>index (x + k * W) y = index x y\<close>,
  and \<open>index\<close> computes \<open>((x mod W) + W) mod W\<close>, so that negative inputs of any
  magnitude wrap into the grid.  The source computes \<open>(x + COLS) % COLS\<close> with the
  truncating remainder of C: at \<open>x = 69 - 2 * COLS = -71\<close> the sum \<open>x + COLS\<close> is
  \<open>-1\<close>, its remainder is \<open>-1\<close>, and \<open>cellindex\<close> returns the index \<open>-1\<close>, where the
  claim's formula gives 69, the index \<open>cellindex\<close> returns for \<open>x = 69\<close>; likewise
  for \<open>y = 29 - 2 * ROWS = -31\<close>.  (\<open>cellindex_wraps\<close> and \<open>cellindex_periodic\<close>
  above: from \<open>- COLS\<close> and \<open>- ROWS\<close> upwards the function does compute the claim's
  formula and is periodic.)
\<close>

theorem cellindex_below_minus_COLS:
  "cellindex (69 + (- 2) * COLS) 0 = Inr (- 1) \<and> cellindex 69 0 = Inr 69 \<and>
   index (69 + (- 2) * COLS) 0 = 69 \<and>
   cellindex 0 (29 + (- 2) * ROWS) = Inr (- 70) \<and> cellindex 0 29 = Inr 2030 \<and>
   index 0 (29 + (- 2) * ROWS) = 2030"
  by (simp add: cellindex_def rbind_def c_int_def c_rem_def index_def wrap_def
      COLS_def ROWS_def INT_MIN_def INT_MAX_def)

text \<open>
  C3.  The claim: \<open>getcell\<close> and \<open>setcell\<close> never fail, whatever the integers \<open>x\<close> and
  \<open>y\<close>, because every pair is wrapped to an index of the grid.  At \<open>(-71, 0)\<close> the
  index that \<open>cellindex\<close> returns is \<open>-1\<close>, and both accessors go outside the array,
  whatever the array.
\<close>

theorem getcell_setcell_out_of_bounds:
  "getcell g (- 71) 0 = Inl OutOfBounds \<and> setcell g (- 71) 0 state = Inl OutOfBounds"
  by (simp add: getcell_def setcell_def load_def store_def cellindex_def rbind_def c_int_def
      c_rem_def COLS_def ROWS_def INT_MIN_def INT_MAX_def)

section \<open>Counting neighbours\<close>

text \<open>
  C4.  The claim: for every grid of cells 0 and 1 and every coordinate \<open>(x, y)\<close>,
  \<open>count_alive_neighbors\<close> returns a value from 0 to 8, the sum of the eight wrapped
  neighbours.  For every cell of the grid it does (\<open>count_alive_neighbors_sum\<close> and
  \<open>live_neighbours_range\<close> above, for \<open>- COLS < x\<close> and \<open>- ROWS < y\<close>).  At
  \<open>x = - COLS\<close> the western neighbours are read at \<open>x - 1 = -71\<close>, where
  \<open>cellindex\<close> does not wrap: at \<open>(-70, 0)\<close> the read of the western neighbour is
  outside the array, and at \<open>(-70, 2)\<close> the cell \<open>(69, 0)\<close>, which is no neighbour of
  \<open>(0, 2)\<close>, is counted.
\<close>

theorem count_alive_neighbors_at_minus_COLS:
  "count_alive_neighbors all_dead (- 70) 0 = Inl OutOfBounds \<and>
   count_alive_neighbors (all_dead[69 := 1]) (- 70) 2 = Inr 1 \<and>
   live_neighbours (all_dead[69 := 1]) (- 70) 2 = 0"
  by (simp add: count_alive_neighbors_def getcell_at_def all_dead_def getcell_def load_def
      cellindex_def rbind_def c_int_def c_rem_def live_neighbours_eq cell_def index_def
      wrap_def COLS_def ROWS_def INT_MIN_def INT_MAX_def)

text \<open>
  C5.  In every grid in which the cell \<open>(COLS - 1, 0)\<close> is alive,
  \<open>count_alive_neighbors g 0 0\<close> reads that cell as the western neighbour of
  \<open>(0, 0)\<close> and its 1 is part of the sum: the count is that cell plus the seven other
  neighbours, and at least 1.
\<close>

theorem count_alive_neighbors_west_edge:
  assumes "is_grid g" and "cell g (COLS - 1) 0 = 1"
  shows "getcell g (0 - 1) 0 = Inr (cell g (COLS - 1) 0) \<and>
    count_alive_neighbors g 0 0 =
      Inr (cell g (COLS - 1) 0 +
        (cell g (COLS - 1) (ROWS - 1) + cell g 0 (ROWS - 1) + cell g 1 (ROWS - 1) +
         cell g 1 0 + cell g (COLS - 1) 1 + cell g 0 1 + cell g 1 1)) \<and>
    (\<exists>n. count_alive_neighbors g 0 0 = Inr n \<and> 1 \<le> n \<and> n \<le> 8)"
proof -
  have len: "length g = nat (COLS * ROWS)" using assms by (simp add: is_grid_def)
  have w: "getcell g (0 - 1) 0 = Inr (cell g (0 - 1) 0)"
    by (rule getcell_wraps [OF len]) (simp_all add: COLS_def ROWS_def INT_MAX_def)
  have i: "index (- 1) y = index (COLS - 1) y" "index x (- 1) = index x (ROWS - 1)" for x y
    by (simp_all add: index_def wrap_def COLS_def ROWS_def)
  have c: "cell g (- 1) y = cell g (COLS - 1) y" "cell g x (- 1) = cell g x (ROWS - 1)" for x y
    by (simp_all add: cell_def i)
  have cnt: "count_alive_neighbors g 0 0 = Inr (live_neighbours g 0 0)"
    by (rule count_alive_neighbors_sum [OF assms(1)]) (simp_all add: COLS_def ROWS_def INT_MAX_def)
  have ln: "live_neighbours g 0 0 = cell g (COLS - 1) 0 +
        (cell g (COLS - 1) (ROWS - 1) + cell g 0 (ROWS - 1) + cell g 1 (ROWS - 1) +
         cell g 1 0 + cell g (COLS - 1) 1 + cell g 0 1 + cell g 1 1)"
    by (simp add: live_neighbours_eq c)
  note b = cell_range [OF assms(1)]
  have ge: "1 \<le> live_neighbours g 0 0"
    unfolding ln
    using assms(2) b [of "COLS - 1" "ROWS - 1"] b [of 0 "ROWS - 1"] b [of 1 "ROWS - 1"]
      b [of 1 0] b [of "COLS - 1" 1] b [of 0 1] b [of 1 1] by linarith
  show ?thesis
    using w cnt ln ge live_neighbours_range [OF assms(1), of 0 0] by (simp add: c)
qed

theorem count_alive_neighbors_west_edge_witness:
  "is_grid (all_dead[69 := 1]) \<and> cell (all_dead[69 := 1]) (COLS - 1) 0 = 1 \<and>
   (\<exists>n. count_alive_neighbors (all_dead[69 := 1]) 0 0 = Inr n \<and> 1 \<le> n \<and> n \<le> 8)"
proof -
  have g: "is_grid (all_dead[69 := 1])"
    by (simp add: is_grid_update is_grid_all_dead)
  have c: "cell (all_dead[69 := 1]) (COLS - 1) 0 = 1"
    by (simp add: cell_def index_def wrap_def all_dead_def COLS_def ROWS_def)
  show ?thesis
    using count_alive_neighbors_west_edge [OF g c] g c by blast
qed

section \<open>The loops of \<open>init\<close> and \<open>copygrid\<close>\<close>

lemma init_from_eq:
  assumes "length g = nat (COLS * ROWS)"
  shows "init_from i g = Inr (map (\<lambda>j. if i \<le> j then 0 else g ! j) [0 ..< nat (COLS * ROWS)])"
  using assms
proof (induction i g rule: init_from.induct)
  case (1 i g)
  show ?case
  proof (cases "int i < COLS * ROWS")
    case True
    then have st: "store g (int i) 0 = Inr (g[i := 0])"
      using "1.prems" by (simp add: store_def)
    have "init_from i g = init_from (Suc i) (g[i := 0])"
      using True by (subst init_from.simps) (simp add: st rbind_def)
    also have "\<dots> = Inr (map (\<lambda>j. if Suc i \<le> j then 0 else g[i := 0] ! j) [0 ..< nat (COLS * ROWS)])"
      using "1.IH" [OF True, of "g[i := 0]"] "1.prems" by simp
    also have "map (\<lambda>j. if Suc i \<le> j then 0 else g[i := 0] ! j) [0 ..< nat (COLS * ROWS)]
        = map (\<lambda>j. if i \<le> j then 0 else g ! j) [0 ..< nat (COLS * ROWS)]"
      using "1.prems" by (auto simp: nth_list_update)
    finally show ?thesis .
  next
    case False
    then have "init_from i g = Inr g"
      by (subst init_from.simps) simp
    moreover have "map (\<lambda>j. if i \<le> j then 0 else g ! j) [0 ..< nat (COLS * ROWS)] = g"
      using False "1.prems" by (intro nth_equalityI) auto
    ultimately show ?thesis by simp
  qed
qed


lemma init_zero:
  assumes "length g = nat (COLS * ROWS)"
  shows "init g = Inr all_dead"
proof -
  have "map (\<lambda>j. if 0 \<le> j then 0 else g ! j) [0 ..< nat (COLS * ROWS)] = all_dead"
    unfolding all_dead_def by (intro nth_equalityI) auto
  then show ?thesis
    using init_from_eq [OF assms, of 0] by (simp add: init_def)
qed

lemma copy_from_eq:
  assumes "length source = nat (COLS * ROWS)" "length dest = nat (COLS * ROWS)"
  shows "copy_from i source dest =
    Inr (map (\<lambda>j. if i \<le> j then source ! j else dest ! j) [0 ..< nat (COLS * ROWS)])"
  using assms
proof (induction i source dest rule: copy_from.induct)
  case (1 i source dest)
  show ?case
  proof (cases "int i < ROWS * COLS")
    case True
    then have ld: "load source (int i) = Inr (source ! i)"
      using "1.prems" by (simp add: load_def mult.commute)
    have st: "store dest (int i) v = Inr (dest[i := v])" for v
      using True "1.prems" by (simp add: store_def mult.commute)
    have "copy_from i source dest = copy_from (Suc i) source (dest[i := source ! i])"
      using True by (subst copy_from.simps) (simp add: ld st rbind_def)
    also have "\<dots> = Inr (map (\<lambda>j. if Suc i \<le> j then source ! j else dest[i := source ! i] ! j)
        [0 ..< nat (COLS * ROWS)])"
      using "1.IH" [OF True, of "dest[i := source ! i]"] "1.prems" by simp
    also have "map (\<lambda>j. if Suc i \<le> j then source ! j else dest[i := source ! i] ! j)
        [0 ..< nat (COLS * ROWS)]
        = map (\<lambda>j. if i \<le> j then source ! j else dest ! j) [0 ..< nat (COLS * ROWS)]"
    proof (intro map_cong refl)
      fix j assume "j \<in> set [0 ..< nat (COLS * ROWS)]"
      then have j: "j < length dest" using "1.prems" by simp
      consider "j < i" | "j = i" | "Suc i \<le> j" by linarith
      then show "(if Suc i \<le> j then source ! j else dest[i := source ! i] ! j)
          = (if i \<le> j then source ! j else dest ! j)"
        using j by cases (simp_all add: nth_list_update)
    qed
    finally show ?thesis .
  next
    case False
    then have "copy_from i source dest = Inr dest"
      by (subst copy_from.simps) simp
    moreover have "map (\<lambda>j. if i \<le> j then source ! j else dest ! j) [0 ..< nat (COLS * ROWS)] = dest"
      using False "1.prems" by (intro nth_equalityI) (auto simp: mult.commute)
    ultimately show ?thesis by simp
  qed
qed

lemma copygrid_eq:
  assumes "length source = nat (COLS * ROWS)" "length dest = nat (COLS * ROWS)"
  shows "copygrid source dest = Inr source"
proof -
  have "map (\<lambda>j. if 0 \<le> j then source ! j else dest ! j) [0 ..< nat (COLS * ROWS)] = source"
    using assms by (intro nth_equalityI) auto
  then show ?thesis
    using copy_from_eq [OF assms, of 0] by (simp add: copygrid_def)
qed

section \<open>The loops of \<open>update\<close>\<close>

lemma length_decided: "length (decided k g) = nat (COLS * ROWS)"
  by (simp add: decided_def)

lemma decided_0: "length g = nat (COLS * ROWS) \<Longrightarrow> decided 0 g = g"
  unfolding decided_def by (intro nth_equalityI) auto

lemma decided_all: "decided (nat (COLS * ROWS)) g = advance g"
  by (simp add: decided_def advance_def)

lemma decided_nth:
  "k < nat (COLS * ROWS) \<Longrightarrow> decided k g ! k = g ! k"
  by (simp add: decided_def)

lemma decided_Suc:
  assumes "k < nat (COLS * ROWS)"
  shows "(decided k g)[k := rule (g ! k) (live_neighbours g (int k mod COLS) (int k div COLS))]
    = decided (Suc k) g"
  using assms unfolding decided_def
  by (intro nth_equalityI) (auto simp: nth_list_update)

lemma index_cell:
  assumes "0 \<le> x" "x < COLS" "0 \<le> y" "y < ROWS"
  shows "index x y = y * COLS + x"
  using assms by (simp add: index_def wrap_mod COLS_def ROWS_def)

lemma cell_index_range:
  assumes "0 \<le> x" "x < COLS" "0 \<le> y" "y < ROWS"
  shows "0 \<le> y * COLS + x \<and> y * COLS + x < COLS * ROWS"
  using index_bounds [of x y] index_cell [OF assms] by simp

lemma cell_coords:
  assumes "0 \<le> x" "x < COLS" "0 \<le> y" "y < ROWS"
  shows "(y * COLS + x) mod COLS = x \<and> (y * COLS + x) div COLS = y"
  using assms by (simp add: COLS_def)

lemma update_cell_decided:
  assumes g: "is_grid g" and r: "0 \<le> x" "x < COLS" "0 \<le> y" "y < ROWS"
    and k: "k = nat (y * COLS + x)"
  shows "update_cell g x y (decided k g) = Inr (decided (Suc k) g)"
proof -
  have len: "length g = nat (COLS * ROWS)" using g by (simp add: is_grid_def)
  have kr: "k < nat (COLS * ROWS)" "int k = y * COLS + x"
    using cell_index_range [OF r] k by simp_all
  have ix: "nat (index x y) = k" using index_cell [OF r] k by simp
  have co: "int k mod COLS = x" "int k div COLS = y"
    using cell_coords [OF r] kr by simp_all
  have wide: "- COLS < x" "x < INT_MAX - COLS" "- ROWS < y" "y < INT_MAX - ROWS"
    using r by (simp_all add: COLS_def ROWS_def INT_MAX_def)
  have cnt: "count_alive_neighbors g x y = Inr (live_neighbours g x y)"
    by (rule count_alive_neighbors_sum [OF g wide])
  have gc: "getcell g x y = Inr (g ! k)"
    using getcell_wraps [OF len, of x y] wide ix by (simp add: cell_def)
  have sc: "setcell (decided k g) x y v = Inr ((decided k g)[k := v])" for v
    using setcell_wraps [OF length_decided, of x y k g v] wide ix by simp
  have b: "g ! k = 0 \<or> g ! k = 1"
    using cell_binary [OF g, of x y] ix by (simp add: cell_def)
  have keep: "(decided k g)[k := g ! k] = decided k g"
    using decided_nth [OF kr(1), of g] by (metis list_update_id)
  have "update_cell g x y (decided k g) =
      Inr ((decided k g)[k := rule (g ! k) (live_neighbours g x y)])"
    using b keep by (auto simp: update_cell_def cnt gc sc rbind_def rule_def)
  then show ?thesis
    using decided_Suc [OF kr(1), of g] by (simp add: co)
qed

lemma update_row_decided:
  assumes g: "is_grid g" and y: "0 \<le> y" "y < ROWS" and x: "0 \<le> x" "x \<le> COLS"
  shows "update_row g y x (decided (nat (y * COLS + x)) g) = Inr (decided (nat (y * COLS + COLS)) g)"
  using x
proof (induction "nat (COLS - x)" arbitrary: x)
  case 0
  then have "x = COLS" by simp
  then show ?case by (subst update_row.simps) simp
next
  case (Suc n)
  then have lt: "x < COLS" by linarith
  have nx: "Suc (nat (y * COLS + x)) = nat (y * COLS + (x + 1))"
    using cell_index_range [OF Suc.prems(1) lt y] by linarith
  have "update_row g y x (decided (nat (y * COLS + x)) g)
      = update_row g y (x + 1) (decided (nat (y * COLS + (x + 1))) g)"
    using lt update_cell_decided [OF g Suc.prems(1) lt y refl]
    by (subst update_row.simps) (simp add: rbind_def nx)
  also have "\<dots> = Inr (decided (nat (y * COLS + COLS)) g)"
    using Suc.hyps(1) [of "x + 1"] Suc.hyps(2) Suc.prems lt by simp
  finally show ?case .
qed

lemma update_rows_decided:
  assumes g: "is_grid g" and y: "0 \<le> y" "y \<le> ROWS"
  shows "update_rows g y (decided (nat (y * COLS)) g) = Inr (advance g)"
  using y
proof (induction "nat (ROWS - y)" arbitrary: y)
  case 0
  then have "y = ROWS" by simp
  then show ?case
    using decided_all [of g] by (subst update_rows.simps) (simp add: mult.commute)
next
  case (Suc n)
  then have lt: "y < ROWS" by linarith
  have row: "update_row g y 0 (decided (nat (y * COLS)) g) = Inr (decided (nat ((y + 1) * COLS)) g)"
    using update_row_decided [OF g Suc.prems(1) lt, of 0] by (simp add: COLS_def algebra_simps)
  have "update_rows g y (decided (nat (y * COLS)) g)
      = update_rows g (y + 1) (decided (nat ((y + 1) * COLS)) g)"
    using lt by (subst update_rows.simps) (simp add: rbind_def row)
  also have "\<dots> = Inr (advance g)"
    using Suc.hyps(1) [of "y + 1"] Suc.hyps(2) Suc.prems lt by simp
  finally show ?case .
qed

lemma length_advance: "length (advance g) = nat (COLS * ROWS)"
  by (simp add: advance_def)

lemma update_in_advance:
  assumes g: "is_grid g" and s: "length scratch = nat (COLS * ROWS)"
  shows "update_in scratch g = Inr (advance g)"
proof -
  have len: "length g = nat (COLS * ROWS)" using g by (simp add: is_grid_def)
  have c1: "copygrid g scratch = Inr g" by (rule copygrid_eq [OF len s])
  have lp: "update_rows g 0 g = Inr (advance g)"
    using update_rows_decided [OF g, of 0] decided_0 [OF len] by (simp add: ROWS_def)
  have c2: "copygrid (advance g) g = Inr (advance g)"
    by (rule copygrid_eq [OF length_advance len])
  show ?thesis by (simp add: update_in_def rbind_def c1 lp c2)
qed

lemma update_in_scratch:
  assumes "is_grid g" and "length scratch = nat (COLS * ROWS)"
  shows "update_in scratch g = update g"
  using update_in_advance [OF assms] update_in_advance [OF assms(1), of "replicate (nat (COLS * ROWS)) 0"]
  by (simp add: update_def)

lemma update_advance:
  assumes "is_grid g"
  shows "update g = Inr (advance g)"
  unfolding update_def by (rule update_in_advance [OF assms]) simp

lemma rule_binary: "rule s n = 0 \<or> rule s n = 1"
  by (simp add: rule_def)

lemma is_grid_advance: "is_grid (advance g)"
  using rule_binary by (auto simp: is_grid_def binary_def advance_def)

lemma cell_advance:
  assumes "0 \<le> x" "x < COLS" "0 \<le> y" "y < ROWS"
  shows "cell (advance g) x y = rule (cell g x y) (live_neighbours g x y)"
proof -
  define k where "k = nat (y * COLS + x)"
  have kr: "k < nat (COLS * ROWS)" "int k = y * COLS + x"
    using cell_index_range [OF assms] by (simp_all add: k_def)
  have ix: "nat (index x y) = k" using index_cell [OF assms] by (simp add: k_def)
  have co: "int k mod COLS = x" "int k div COLS = y"
    using cell_coords [OF assms] kr by simp_all
  show ?thesis
    using kr(1) by (simp add: cell_def ix advance_def co)
qed

text \<open>
  C2.  On every grid of cells 0 and 1, \<open>update\<close> returns \<open>advance g\<close>: the rule
  of the specification mapped over every cell, where the state of each cell and the
  states of its eight neighbours are those of the argument \<open>g\<close>, the grid before the
  call.  What the loops have already decided for other cells is in \<open>gridcpy\<close> only
  and is never read.
\<close>

theorem update_is_rule_on_snapshot:
  assumes "is_grid g"
  shows "update g = Inr (advance g) \<and>
    (\<forall>x y. 0 \<le> x \<and> x < COLS \<and> 0 \<le> y \<and> y < ROWS \<longrightarrow>
       cell (advance g) x y = rule (cell g x y) (live_neighbours g x y))"
  using update_advance [OF assms] cell_advance by simp

theorem update_is_rule_on_snapshot_witness:
  "is_grid (all_dead[71 := 1]) \<and> update (all_dead[71 := 1]) = Inr (advance (all_dead[71 := 1])) \<and>
   cell (advance (all_dead[71 := 1])) 1 1
     = rule (cell (all_dead[71 := 1]) 1 1) (live_neighbours (all_dead[71 := 1]) 1 1)"
proof -
  have g: "is_grid (all_dead[71 := 1])"
    by (simp add: is_grid_update is_grid_all_dead)
  have r: "(0::int) \<le> 1 \<and> 1 < COLS \<and> (0::int) \<le> 1 \<and> 1 < ROWS"
    by (simp add: COLS_def ROWS_def)
  show ?thesis
    using update_is_rule_on_snapshot [OF g] g r by blast
qed

section \<open>Patterns\<close>

lemma cell_all_dead: "cell all_dead x y = 0"
  using index_bounds [of x y] by (simp add: cell_def all_dead_def)

lemma live_neighbours_all_dead: "live_neighbours all_dead x y = 0"
  by (simp add: live_neighbours_eq cell_all_dead)

lemma nth_all_dead: "i < nat (COLS * ROWS) \<Longrightarrow> all_dead ! i = 0"
  by (simp add: all_dead_def)

lemma advance_all_dead: "advance all_dead = all_dead"
proof -
  have "advance all_dead = map (\<lambda>i. 0) [0 ..< nat (COLS * ROWS)]"
    unfolding advance_def
    by (intro map_cong refl) (simp add: live_neighbours_all_dead rule_def nth_all_dead)
  also have "\<dots> = all_dead"
    by (simp add: all_dead_def map_replicate_const)
  finally show ?thesis .
qed

text \<open>
  C6.  \<open>update\<close> applied to the grid whose cells are all 0 returns the grid whose
  cells are all 0.
\<close>

theorem update_all_dead: "update all_dead = Inr all_dead"
  using update_advance [OF is_grid_all_dead] by (simp add: advance_all_dead)

section \<open>Generations\<close>

lemma funpow_is_grid: "is_grid g \<Longrightarrow> is_grid ((advance ^^ n) g)"
  by (cases n) (simp_all add: is_grid_advance)

lemma generations_funpow:
  assumes "is_grid g"
  shows "generations n g = Inr ((advance ^^ n) g)"
  using assms
proof (induction n arbitrary: g)
  case 0
  then show ?case by simp
next
  case (Suc n)
  have "generations (Suc n) g = generations n (advance g)"
    by (simp add: update_advance [OF Suc.prems] rbind_def)
  also have "\<dots> = Inr ((advance ^^ n) (advance g))"
    by (rule Suc.IH [OF is_grid_advance])
  finally show ?case by (simp add: funpow_swap1)
qed

text \<open>
  C9.  \<open>update\<close> is total and deterministic on grids: it returns exactly one grid,
  which is a grid again; the result does not depend on what the local array
  \<open>gridcpy\<close> holds when the function is entered, the only thing besides the argument
  that the function reads; and the grid after \<open>n\<close> rounds of the loop of \<open>main\<close> is
  the \<open>n\<close>-fold application of the one function \<open>advance\<close>, each round being one more
  call of \<open>update\<close> on the result of the rounds before.
\<close>

theorem update_total_deterministic:
  assumes "is_grid g" 
    and "length scratch = nat (COLS * ROWS)" "length scratch' = nat (COLS * ROWS)"
  shows "(\<exists>!g'. update g = Inr g') \<and>
    (\<exists>g'. update g = Inr g' \<and> is_grid g') \<and>
    update_in scratch g = update_in scratch' g \<and>
    generations n g = Inr ((advance ^^ n) g) \<and>
    generations (Suc n) g = rbind (generations n g) update"
proof -
  have u: "update g = Inr (advance g)" by (rule update_advance [OF assms(1)])
  have s: "update_in scratch g = update_in scratch' g"
    by (simp add: update_in_scratch [OF assms(1)] assms)
  have n: "generations n g = Inr ((advance ^^ n) g)" for n
    by (rule generations_funpow [OF assms(1)])
  have "rbind (generations n g) update = update ((advance ^^ n) g)"
    by (simp add: n rbind_def)
  also have "\<dots> = Inr ((advance ^^ Suc n) g)"
    using update_advance [OF funpow_is_grid [OF assms(1)], of n] by simp
  finally have st: "generations (Suc n) g = rbind (generations n g) update"
    using n [of "Suc n"] by simp
  show ?thesis
    using u s n st is_grid_advance [of g] by simp
qed

theorem update_total_deterministic_witness:
  "is_grid (all_dead[71 := 1]) \<and> length all_dead = nat (COLS * ROWS) \<and>
   length (replicate 2100 (5::int)) = nat (COLS * ROWS) \<and>
   (\<exists>g'. update (all_dead[71 := 1]) = Inr g' \<and> is_grid g') \<and>
   update_in all_dead (all_dead[71 := 1]) = update_in (replicate 2100 5) (all_dead[71 := 1]) \<and>
   generations 2 (all_dead[71 := 1]) = Inr ((advance ^^ 2) (all_dead[71 := 1]))"
proof -
  have g: "is_grid (all_dead[71 := 1])"
    by (simp add: is_grid_update is_grid_all_dead)
  have s: "length all_dead = nat (COLS * ROWS)"
    by (simp add: all_dead_def)
  have s': "length (replicate 2100 (5::int)) = nat (COLS * ROWS)"
    by (simp add: COLS_def ROWS_def)
  show ?thesis
    using update_total_deterministic [OF g s s', of 2] g s s' by blast
qed

section \<open>The cells stay 0 or 1\<close>

lemma setup_from_writes:
  assumes "\<forall>(x, y) \<in> set cs. 0 \<le> x \<and> x < COLS \<and> 0 \<le> y \<and> y < ROWS" and "is_grid g"
  shows "\<exists>g'. setup_from cs g = Inr g' \<and> is_grid g' \<and>
    (\<forall>i < nat (COLS * ROWS). g' ! i = (if i \<in> (\<lambda>(x, y). nat (y * COLS + x)) ` set cs then 1 else g ! i))"
  using assms
proof (induction cs arbitrary: g)
  case Nil
  then show ?case by simp
next
  case (Cons c cs)
  obtain x y where c: "c = (x, y)" by (cases c)
  have r: "0 \<le> x" "x < COLS" "0 \<le> y" "y < ROWS" using Cons.prems(1) c by auto
  have len: "length g = nat (COLS * ROWS)" using Cons.prems(2) by (simp add: is_grid_def)
  have ci: "cellindex x y = Inr (y * COLS + x)"
    using cellindex_wraps [of x y] index_cell [OF r] r by (simp add: COLS_def ROWS_def INT_MAX_def)
  have st: "store g (y * COLS + x) 1 = Inr (g[nat (y * COLS + x) := 1])"
    using cell_index_range [OF r] len by (simp add: store_def)
  have g1: "is_grid (g[nat (y * COLS + x) := 1])"
    by (simp add: is_grid_update Cons.prems(2))
  have rest: "\<forall>(x, y) \<in> set cs. 0 \<le> x \<and> x < COLS \<and> 0 \<le> y \<and> y < ROWS"
    using Cons.prems(1) by simp
  obtain g' where g': "setup_from cs (g[nat (y * COLS + x) := 1]) = Inr g'" "is_grid g'"
    "\<forall>i < nat (COLS * ROWS). g' ! i =
       (if i \<in> (\<lambda>(x, y). nat (y * COLS + x)) ` set cs then 1 else g[nat (y * COLS + x) := 1] ! i)"
    using Cons.IH [OF rest g1] by blast
  have "setup_from (c # cs) g = Inr g'"
    by (simp add: c ci st rbind_def g'(1))
  moreover have "\<forall>i < nat (COLS * ROWS). g' ! i =
       (if i \<in> (\<lambda>(x, y). nat (y * COLS + x)) ` set (c # cs) then 1 else g ! i)"
    using g'(3) len by (auto simp: c nth_list_update)
  ultimately show ?case using g'(2) by blast
qed

lemma setup_cells_in_grid:
  "\<forall>(x, y) \<in> set setup_cells. 0 \<le> x \<and> x < COLS \<and> 0 \<le> y \<and> y < ROWS"
  by (simp add: setup_cells_def COLS_def ROWS_def)

lemma setup_grid_writes:
  assumes "is_grid g"
  shows "\<exists>g'. setup_grid g = Inr g' \<and> is_grid g' \<and>
    (\<forall>i < nat (COLS * ROWS). g' ! i = (if i \<in> (\<lambda>(x, y). nat (y * COLS + x)) ` set setup_cells then 1 else g ! i))"
  unfolding setup_grid_def by (rule setup_from_writes [OF setup_cells_in_grid assms])

text \<open>
  C10.  Every cell being 0 or 1 is an invariant of the program: \<open>init\<close> returns the
  grid of zeros; the function \<open>setup\<close> of the source returns a grid in which every
  cell is 1 or as it was; \<open>update\<close> returns a grid of cells 0 and 1 when given one;
  and so the grid of \<open>main\<close> is one after any number of rounds.
\<close>

theorem binary_cells_invariant:
  "(length g0 = nat (COLS * ROWS) \<longrightarrow> init g0 = Inr all_dead \<and> is_grid all_dead) \<and>
   (is_grid g \<longrightarrow>
      (\<exists>g'. setup_grid g = Inr g' \<and> is_grid g' \<and>
         (\<forall>i < nat (COLS * ROWS). g' ! i = g ! i \<or> g' ! i = 1)) \<and>
      (\<exists>g'. update g = Inr g' \<and> is_grid g')) \<and>
   (length g0 = nat (COLS * ROWS) \<longrightarrow> (\<exists>g'. main_grid g0 n = Inr g' \<and> is_grid g'))"
proof -
  have i: "init g0 = Inr all_dead" if "length g0 = nat (COLS * ROWS)"
    by (rule init_zero [OF that])
  have s: "\<exists>g'. setup_grid g = Inr g' \<and> is_grid g' \<and>
         (\<forall>i < nat (COLS * ROWS). g' ! i = g ! i \<or> g' ! i = 1)" if "is_grid g" for g
    using setup_grid_writes [OF that] by (metis (no_types, lifting))
  have u: "\<exists>g'. update g = Inr g' \<and> is_grid g'" if "is_grid g"
    using update_advance [OF that] is_grid_advance by simp
  have m: "\<exists>g'. main_grid g0 n = Inr g' \<and> is_grid g'" if "length g0 = nat (COLS * ROWS)"
  proof -
    obtain g1 where g1: "setup_grid all_dead = Inr g1" "is_grid g1"
      using s [OF is_grid_all_dead] by blast
    have "main_grid g0 n = Inr ((advance ^^ n) g1)"
      by (simp add: main_grid_def i [OF that] g1(1) rbind_def generations_funpow [OF g1(2)])
    then show ?thesis using funpow_is_grid [OF g1(2)] by simp
  qed
  show ?thesis using i s u m is_grid_all_dead by blast
qed

theorem binary_cells_invariant_witness:
  "length (replicate 2100 (5::int)) = nat (COLS * ROWS) \<and>
   init (replicate 2100 5) = Inr all_dead \<and> is_grid all_dead \<and>
   is_grid (all_dead[71 := 1]) \<and>
   (\<exists>g'. setup_grid (all_dead[71 := 1]) = Inr g' \<and> is_grid g') \<and>
   (\<exists>g'. update (all_dead[71 := 1]) = Inr g' \<and> is_grid g') \<and>
   (\<exists>g'. main_grid (replicate 2100 5) 3 = Inr g' \<and> is_grid g')"
proof -
  have g: "is_grid (all_dead[71 := 1])"
    by (simp add: is_grid_update is_grid_all_dead)
  have s: "length (replicate 2100 (5::int)) = nat (COLS * ROWS)"
    by (simp add: COLS_def ROWS_def)
  show ?thesis
    using binary_cells_invariant [of "replicate 2100 5" "all_dead[71 := 1]" 3] g s by blast
qed

section \<open>The block and the blinker\<close>

lemma cell_grid_of:
  "cell (grid_of P) x y = (if P (wrap x COLS) (wrap y ROWS) then 1 else 0)"
proof -
  have x: "0 \<le> wrap x COLS" "wrap x COLS < COLS"
    using wrap_range [of COLS x] by (simp_all add: COLS_def)
  have y: "0 \<le> wrap y ROWS" "wrap y ROWS < ROWS"
    using wrap_range [of ROWS y] by (simp_all add: ROWS_def)
  define k where "k = nat (index x y)"
  have kr: "k < nat (COLS * ROWS)" "int k = wrap y ROWS * COLS + wrap x COLS"
    using index_bounds [of x y] by (simp_all add: k_def index_def)
  have co: "int k mod COLS = wrap x COLS" "int k div COLS = wrap y ROWS"
    using cell_coords [OF x y] kr by simp_all
  show ?thesis
    using kr(1) by (simp add: cell_def k_def [symmetric] grid_of_def co)
qed

lemma is_grid_grid_of: "is_grid (grid_of P)"
  by (auto simp: is_grid_def binary_def grid_of_def)

lemma wrap_id: "0 \<le> v \<Longrightarrow> v < n \<Longrightarrow> wrap v n = v"
  by (simp add: wrap_def)

lemma wrap_succ: "0 \<le> v \<Longrightarrow> v < n \<Longrightarrow> wrap (v + 1) n = (if v = n - 1 then 0 else v + 1)"
  by (simp add: wrap_def)

lemma wrap_pred: "0 \<le> v \<Longrightarrow> v < n \<Longrightarrow> wrap (v - 1) n = (if v = 0 then n - 1 else v - 1)"
  by (auto simp: wrap_def zmod_minus1)

lemma advance_grid_of:
  assumes "\<And>x y. 0 \<le> x \<Longrightarrow> x < COLS \<Longrightarrow> 0 \<le> y \<Longrightarrow> y < ROWS \<Longrightarrow>
    rule (if P x y then 1 else 0) (live_neighbours (grid_of P) x y) = (if Q x y then 1 else 0)"
  shows "advance (grid_of P) = grid_of Q"
proof -
  have "rule (grid_of P ! i) (live_neighbours (grid_of P) (int i mod COLS) (int i div COLS))
      = (if Q (int i mod COLS) (int i div COLS) then 1 else 0)"
    if "i < nat (COLS * ROWS)" for i
  proof -
    have r: "0 \<le> int i mod COLS" "int i mod COLS < COLS" "0 \<le> int i div COLS" "int i div COLS < ROWS"
      using that by (simp_all add: COLS_def ROWS_def)
    have "grid_of P ! i = (if P (int i mod COLS) (int i div COLS) then 1 else 0)"
      using that by (simp add: grid_of_def)
    then show ?thesis using assms [OF r] by simp
  qed
  then show ?thesis
    unfolding advance_def grid_of_def [of Q] by (intro map_cong refl) simp
qed

lemma live_neighbours_product:
  assumes "0 \<le> x" "x < COLS" "0 \<le> y" "y < ROWS"
  shows "live_neighbours (grid_of (\<lambda>x y. A x \<and> B y)) x y =
    (if A (wrap (x - 1) COLS) \<and> B (wrap (y - 1) ROWS) then 1 else 0) +
    (if A x \<and> B (wrap (y - 1) ROWS) then 1 else 0) +
    (if A (wrap (x + 1) COLS) \<and> B (wrap (y - 1) ROWS) then 1 else 0) +
    (if A (wrap (x - 1) COLS) \<and> B y then 1 else 0) +
    (if A (wrap (x + 1) COLS) \<and> B y then 1 else 0) +
    (if A (wrap (x - 1) COLS) \<and> B (wrap (y + 1) ROWS) then 1 else 0) +
    (if A x \<and> B (wrap (y + 1) ROWS) then 1 else 0) +
    (if A (wrap (x + 1) COLS) \<and> B (wrap (y + 1) ROWS) then 1 else 0)"
  unfolding live_neighbours_eq cell_grid_of
  using assms by (simp only: wrap_id)

lemma block_rule:
  assumes "\<not> (am \<and> ap)" "a \<longrightarrow> am \<or> ap" "\<not> (bm \<and> bp)" "b \<longrightarrow> bm \<or> bp"
  shows "rule (if a \<and> b then 1 else 0)
     ((if am \<and> bm then 1 else 0) + (if a \<and> bm then 1 else 0) + (if ap \<and> bm then 1 else 0) +
      (if am \<and> b then 1 else 0) + (if ap \<and> b then 1 else 0) +
      (if am \<and> bp then 1 else 0) + (if a \<and> bp then 1 else 0) + (if ap \<and> bp then 1 else 0))
    = (if a \<and> b then 1 else 0)"
  using assms
  by (cases a; cases am; cases ap; cases b; cases bm; cases bp; simp add: rule_def)

lemma pair_line:
  assumes "4 \<le> n" "0 \<le> v" "v < n" "0 \<le> c" "c < n"
  shows "\<not> ((wrap (v - 1) n = c \<or> wrap (v - 1) n = wrap (c + 1) n) \<and>
            (wrap (v + 1) n = c \<or> wrap (v + 1) n = wrap (c + 1) n))"
    and "v = c \<or> v = wrap (c + 1) n \<longrightarrow>
           (wrap (v - 1) n = c \<or> wrap (v - 1) n = wrap (c + 1) n) \<or>
           (wrap (v + 1) n = c \<or> wrap (v + 1) n = wrap (c + 1) n)"
  using assms by (auto simp: wrap_succ wrap_pred split: if_splits)

lemma advance_block:
  assumes "0 \<le> bx" "bx < COLS" "0 \<le> by" "by < ROWS"
  shows "advance (block bx by) = block bx by"
  unfolding block_def
proof (rule advance_grid_of)
  fix x y :: int
  assume r: "0 \<le> x" "x < COLS" "0 \<le> y" "y < ROWS"
  have c: "(4::int) \<le> COLS" and rw: "(4::int) \<le> ROWS" by (simp_all add: COLS_def ROWS_def)
  note px = pair_line [OF c r(1,2) assms(1,2)]
  note py = pair_line [OF rw r(3,4) assms(3,4)]
  show "rule (if (x = bx \<or> x = wrap (bx + 1) COLS) \<and> (y = by \<or> y = wrap (by + 1) ROWS) then 1 else 0)
      (live_neighbours (grid_of (\<lambda>x y. (x = bx \<or> x = wrap (bx + 1) COLS) \<and> (y = by \<or> y = wrap (by + 1) ROWS))) x y)
      = (if (x = bx \<or> x = wrap (bx + 1) COLS) \<and> (y = by \<or> y = wrap (by + 1) ROWS) then 1 else 0)"
    unfolding live_neighbours_product [OF r]
    by (rule block_rule [OF px py])
qed

lemma blinker_rule_h:
  assumes "(am \<and> a \<and> ap) \<longleftrightarrow> c" "\<not> (bm \<and> b)" "\<not> (b \<and> bp)" "\<not> (bm \<and> bp)"
    "d \<longleftrightarrow> bm \<or> b \<or> bp"
  shows "rule (if a \<and> b then 1 else 0)
     ((if am \<and> bm then 1 else 0) + (if a \<and> bm then 1 else 0) + (if ap \<and> bm then 1 else 0) +
      (if am \<and> b then 1 else 0) + (if ap \<and> b then 1 else 0) +
      (if am \<and> bp then 1 else 0) + (if a \<and> bp then 1 else 0) + (if ap \<and> bp then 1 else 0))
    = (if c \<and> d then 1 else 0)"
  using assms
  by (cases a; cases am; cases ap; cases b; cases bm; cases bp; simp add: rule_def)

lemma blinker_rule_v:
  assumes "(am \<and> a \<and> ap) \<longleftrightarrow> c" "\<not> (bm \<and> b)" "\<not> (b \<and> bp)" "\<not> (bm \<and> bp)"
    "d \<longleftrightarrow> bm \<or> b \<or> bp"
  shows "rule (if b \<and> a then 1 else 0)
     ((if bm \<and> am then 1 else 0) + (if b \<and> am then 1 else 0) + (if bp \<and> am then 1 else 0) +
      (if bm \<and> a then 1 else 0) + (if bp \<and> a then 1 else 0) +
      (if bm \<and> ap then 1 else 0) + (if b \<and> ap then 1 else 0) + (if bp \<and> ap then 1 else 0))
    = (if d \<and> c then 1 else 0)"
  using assms
  by (cases a; cases am; cases ap; cases b; cases bm; cases bp; simp add: rule_def)

lemma triple_line:
  assumes "5 \<le> n" "0 \<le> v" "v < n" "0 \<le> c" "c < n"
  shows "((wrap (v - 1) n = wrap (c - 1) n \<or> wrap (v - 1) n = c \<or> wrap (v - 1) n = wrap (c + 1) n) \<and>
          (v = wrap (c - 1) n \<or> v = c \<or> v = wrap (c + 1) n) \<and>
          (wrap (v + 1) n = wrap (c - 1) n \<or> wrap (v + 1) n = c \<or> wrap (v + 1) n = wrap (c + 1) n))
         \<longleftrightarrow> v = c"
  using assms by (auto simp: wrap_succ wrap_pred split: if_splits)

lemma single_line:
  assumes "3 \<le> n" "0 \<le> v" "v < n" "0 \<le> c" "c < n"
  shows "\<not> (wrap (v - 1) n = c \<and> v = c)" "\<not> (v = c \<and> wrap (v + 1) n = c)"
    "\<not> (wrap (v - 1) n = c \<and> wrap (v + 1) n = c)"
    "(v = wrap (c - 1) n \<or> v = c \<or> v = wrap (c + 1) n)
       \<longleftrightarrow> (wrap (v - 1) n = c \<or> v = c \<or> wrap (v + 1) n = c)"
  using assms by (auto simp: wrap_succ wrap_pred split: if_splits)

lemma advance_blinker_h:
  assumes "0 \<le> cx" "cx < COLS" "0 \<le> cy" "cy < ROWS"
  shows "advance (blinker_h cx cy) = blinker_v cx cy"
  unfolding blinker_h_def blinker_v_def
proof (rule advance_grid_of)
  fix x y :: int
  assume r: "0 \<le> x" "x < COLS" "0 \<le> y" "y < ROWS"
  have c: "(5::int) \<le> COLS" and rw: "(3::int) \<le> ROWS" by (simp_all add: COLS_def ROWS_def)
  note tx = triple_line [OF c r(1,2) assms(1,2)]
  note sy = single_line [OF rw r(3,4) assms(3,4)]
  show "rule (if (x = wrap (cx - 1) COLS \<or> x = cx \<or> x = wrap (cx + 1) COLS) \<and> y = cy then 1 else 0)
      (live_neighbours (grid_of (\<lambda>x y. (x = wrap (cx - 1) COLS \<or> x = cx \<or> x = wrap (cx + 1) COLS) \<and> y = cy)) x y)
      = (if x = cx \<and> (y = wrap (cy - 1) ROWS \<or> y = cy \<or> y = wrap (cy + 1) ROWS) then 1 else 0)"
    unfolding live_neighbours_product [OF r]
    by (rule blinker_rule_h [OF tx sy])
qed

lemma advance_blinker_v:
  assumes "0 \<le> cx" "cx < COLS" "0 \<le> cy" "cy < ROWS"
  shows "advance (blinker_v cx cy) = blinker_h cx cy"
  unfolding blinker_h_def blinker_v_def
proof (rule advance_grid_of)
  fix x y :: int
  assume r: "0 \<le> x" "x < COLS" "0 \<le> y" "y < ROWS"
  have c: "(3::int) \<le> COLS" and rw: "(5::int) \<le> ROWS" by (simp_all add: COLS_def ROWS_def)
  note ty = triple_line [OF rw r(3,4) assms(3,4)]
  note sx = single_line [OF c r(1,2) assms(1,2)]
  show "rule (if x = cx \<and> (y = wrap (cy - 1) ROWS \<or> y = cy \<or> y = wrap (cy + 1) ROWS) then 1 else 0)
      (live_neighbours (grid_of (\<lambda>x y. x = cx \<and> (y = wrap (cy - 1) ROWS \<or> y = cy \<or> y = wrap (cy + 1) ROWS))) x y)
      = (if (x = wrap (cx - 1) COLS \<or> x = cx \<or> x = wrap (cx + 1) COLS) \<and> y = cy then 1 else 0)"
    unfolding live_neighbours_product [OF r]
    by (rule blinker_rule_v [OF ty sx])
qed

lemma blinker_h_neq_v:
  assumes "0 \<le> cx" "cx < COLS" "0 \<le> cy" "cy < ROWS"
  shows "blinker_h cx cy \<noteq> blinker_v cx cy"
proof
  assume eq: "blinker_h cx cy = blinker_v cx cy"
  have ne: "wrap (cy + 1) ROWS \<noteq> cy"
    using assms by (simp add: wrap_succ ROWS_def)
  have w: "wrap (wrap (cy + 1) ROWS) ROWS = wrap (cy + 1) ROWS" "wrap cx COLS = cx"
    using assms by (simp_all add: wrap_def)
  have "cell (blinker_h cx cy) cx (wrap (cy + 1) ROWS) = 0"
    using ne by (simp add: blinker_h_def cell_grid_of w)
  moreover have "cell (blinker_v cx cy) cx (wrap (cy + 1) ROWS) = 1"
    by (simp add: blinker_v_def cell_grid_of w)
  ultimately show False using eq by simp
qed


text \<open>
  C7.  The block is a fixed point of \<open>update\<close>, wherever its 2 by 2 square lies on
  the grid, also across the edges (the grid of 70 by 30 cells is large enough for the
  square not to meet itself through the wrap).
\<close>

theorem block_still_life:
  assumes "0 \<le> bx" "bx < COLS" "0 \<le> by" "by < ROWS"
  shows "update (block bx by) = Inr (block bx by)"
  using update_advance [of "block bx by"] advance_block [OF assms]
  by (simp add: block_def is_grid_grid_of)

theorem block_still_life_witness:
  "(0::int) \<le> 69 \<and> 69 < COLS \<and> (0::int) \<le> 29 \<and> 29 < ROWS \<and> update (block 69 29) = Inr (block 69 29)"
  using block_still_life [of 69 29] by (simp add: COLS_def ROWS_def)

text \<open>
  C8.  The blinker has period 2, wherever its centre \<open>(cx, cy)\<close> lies on the grid:
  two calls of \<open>update\<close> return the blinker, one call does not.  This holds for the
  three cells in a horizontal row and for the three cells in a vertical row; one call
  of \<open>update\<close> turns each into the other.
\<close>

theorem blinker_period_2:
  assumes "0 \<le> cx" "cx < COLS" "0 \<le> cy" "cy < ROWS"
  shows "rbind (update (blinker_h cx cy)) update = Inr (blinker_h cx cy) \<and>
    update (blinker_h cx cy) \<noteq> Inr (blinker_h cx cy) \<and>
    rbind (update (blinker_v cx cy)) update = Inr (blinker_v cx cy) \<and>
    update (blinker_v cx cy) \<noteq> Inr (blinker_v cx cy)"
proof -
  have h: "update (blinker_h cx cy) = Inr (blinker_v cx cy)"
    using update_advance [of "blinker_h cx cy"] advance_blinker_h [OF assms]
    by (simp add: blinker_h_def is_grid_grid_of)
  have v: "update (blinker_v cx cy) = Inr (blinker_h cx cy)"
    using update_advance [of "blinker_v cx cy"] advance_blinker_v [OF assms]
    by (simp add: blinker_v_def is_grid_grid_of)
  show ?thesis
    using blinker_h_neq_v [OF assms] by (auto simp: h v rbind_def)
qed

theorem blinker_period_2_witness:
  "(0::int) \<le> 0 \<and> 0 < COLS \<and> (0::int) \<le> 29 \<and> 29 < ROWS \<and>
   rbind (update (blinker_h 0 29)) update = Inr (blinker_h 0 29) \<and>
   update (blinker_h 0 29) \<noteq> Inr (blinker_h 0 29) \<and>
   rbind (update (blinker_v 0 29)) update = Inr (blinker_v 0 29) \<and>
   update (blinker_v 0 29) \<noteq> Inr (blinker_v 0 29)"
  using blinker_period_2 [of 0 29] by (simp add: COLS_def ROWS_def)

end
